theory Spec2Isabelle
  imports Main "HOL-Library.Word"
begin

unbundle bit_operations_syntax

section \<open>Go values used by merkleredis.go\<close>

text \<open>
  A Go \<^verbatim>\<open>[]byte\<close> is either nil or a (possibly empty) sequence of bytes; the
  source tests \<^verbatim>\<open>!= nil\<close>, so the two are kept apart: \<open>None\<close> is the nil slice.
  A buffer that is known to be allocated (the result of \<^verbatim>\<open>make\<close>, the argument of
  the decoder past its length check) is a plain byte list.
  Go's \<^verbatim>\<open>int\<close> is taken as 64 bits wide (amd64, arm64); lengths are natural
  numbers, and the only sum the source forms from untrusted values is shown below to
  stay under \<open>2 ^ 63\<close>.
\<close>

type_synonym byte = "8 word"
type_synonym uint32 = "32 word"
type_synonym slice = "byte list option"

fun len :: "slice \<Rightarrow> nat" where
  "len None = 0"
| "len (Some xs) = length xs"

fun bytes_of :: "slice \<Rightarrow> byte list" where
  "bytes_of None = []"
| "bytes_of (Some xs) = xs"

text \<open>\<^verbatim>\<open>copy(dst, src)\<close>: the first \<open>min (len dst) (len src)\<close> bytes of \<open>dst\<close> are
  overwritten, the length of \<open>dst\<close> is kept.\<close>

definition copy :: "byte list \<Rightarrow> byte list \<Rightarrow> byte list" where
  "copy dst src = (let n = min (length dst) (length src) in take n src @ drop n dst)"

text \<open>\<^verbatim>\<open>copy(d[pos:], src)\<close>: the copy lands in \<open>d\<close> from offset \<open>pos\<close> on.\<close>

definition copy_at :: "byte list \<Rightarrow> nat \<Rightarrow> byte list \<Rightarrow> byte list" where
  "copy_at d pos src = take pos d @ copy (drop pos d) src"

text \<open>\<^verbatim>\<open>d[lo:hi]\<close>; every use in the source is guarded so that \<open>lo \<le> hi \<le> length d\<close>
  (lemma \<open>bytesToNodeItem_slices_in_range\<close>).\<close>

definition slice_of :: "byte list \<Rightarrow> nat \<Rightarrow> nat \<Rightarrow> byte list" where
  "slice_of d lo hi = take (hi - lo) (drop lo d)"

text \<open>\<^verbatim>\<open>append(s, xs...)\<close>: appending nothing to nil stays nil.\<close>

definition append_slice :: "slice \<Rightarrow> byte list \<Rightarrow> slice" where
  "append_slice s xs = (if s = None \<and> xs = [] then None else Some (bytes_of s @ xs))"

section \<open>The little-endian length fields\<close>

definition readUint32LE :: "byte list \<Rightarrow> nat \<Rightarrow> uint32" where
  "readUint32LE d index =
     push_bit 24 (ucast (d ! (index + 3))) OR push_bit 16 (ucast (d ! (index + 2))) OR
     push_bit 8 (ucast (d ! (index + 1))) OR ucast (d ! index)"

definition writeUint32LE :: "byte list \<Rightarrow> nat \<Rightarrow> uint32 \<Rightarrow> byte list" where
  "writeUint32LE d index v =
     (let d1 = d[index := ucast (v AND 0xff)];
          d2 = d1[index + 1 := ucast (drop_bit 8 v AND 0xff)];
          d3 = d2[index + 2 := ucast (drop_bit 16 v AND 0xff)]
      in d3[index + 3 := ucast (drop_bit 24 v AND 0xff)])"

section \<open>Errors\<close>

text \<open>
  Go \<^verbatim>\<open>error\<close> values that the package returns: the two sentinel errors of the
  Merkle tree library, \<^verbatim>\<open>fmt.Errorf\<close> with a fixed message, an error of the Redis
  client (kept opaque, identified by its message) and the package's own wrapper
  \<^verbatim>\<open>storageError{err, msg}\<close>.
\<close>

datatype error =
    ErrNotFound
  | ErrNodeBytesBadSize
  | Errorf string
  | ClientError string
  | storageError error string

definition newErr :: "error \<Rightarrow> string \<Rightarrow> error" where
  "newErr err msg = storageError err msg"

fun Unwrap :: "error \<Rightarrow> error option" where
  "Unwrap (storageError err msg) = Some err"
| "Unwrap _ = None"

text \<open>Whether an error is the package's wrapper.\<close>

fun is_storageError :: "error \<Rightarrow> bool" where
  "is_storageError (storageError err msg) = True"
| "is_storageError _ = False"

text \<open>The names the specification gives to the decoder's two errors.\<close>

definition CorruptHeader :: error where
  "CorruptHeader = Errorf ''corrupted merkle node: invalid header''"

definition LengthOverflow :: error where
  "LengthOverflow = Errorf ''corrupted merkle node: overflow''"

section \<open>The node codec\<close>

record NodeItem =
  Type :: byte
  Key :: slice
  ChildL :: slice
  ChildR :: slice
  Entry :: slice

definition bytesToNodeItem :: "byte list \<Rightarrow> error + NodeItem" where
  "bytesToNodeItem d =
     (let dLen = length d in
      if dLen < 17 then Inl (Errorf ''corrupted merkle node: invalid header'')
      else
        let keyLen = unat (readUint32LE d 1);
            childLLen = unat (readUint32LE d 5);
            childRLen = unat (readUint32LE d 9);
            entryLen = unat (readUint32LE d 13)
        in if keyLen + childLLen + childRLen + entryLen + 17 > length d
           then Inl (Errorf ''corrupted merkle node: overflow'')
           else
             let p0 = 17;
                 p1 = p0 + keyLen;
                 p2 = p1 + childLLen;
                 p3 = p2 + childRLen
             in Inr \<lparr>Type = d ! 0,
                     Key = Some (slice_of d p0 (p0 + keyLen)),
                     ChildL = Some (slice_of d p1 (p1 + childLLen)),
                     ChildR = Some (slice_of d p2 (p2 + childRLen)),
                     Entry = Some (slice_of d p3 (p3 + entryLen))\<rparr>)"

text \<open>
  The encoder fills a zeroed buffer in the order of the source: type byte, then for each
  field its length and its bytes. The last \<^verbatim>\<open>copy\<close> takes its bytes from
  \<^verbatim>\<open>n.ChildR\<close>, as the source does.
\<close>

definition nodeItemToBytes :: "NodeItem \<Rightarrow> byte list" where
  "nodeItemToBytes n =
     (let d0 = replicate (17 + len (Key n) + len (ChildL n) + len (ChildR n) + len (Entry n)) 0;
          d1 = d0[0 := Type n];
          pos0 = 17;
          (d2, pos1) = (case Key n of
                          Some k \<Rightarrow> (copy_at (writeUint32LE d1 1 (of_nat (length k))) pos0 k,
                                     pos0 + length k)
                        | None \<Rightarrow> (writeUint32LE d1 1 0, pos0));
          (d3, pos2) = (case ChildL n of
                          Some l \<Rightarrow> (copy_at (writeUint32LE d2 5 (of_nat (length l))) pos1 l,
                                     pos1 + length l)
                        | None \<Rightarrow> (writeUint32LE d2 5 0, pos1));
          (d4, pos3) = (case ChildR n of
                          Some r \<Rightarrow> (copy_at (writeUint32LE d3 9 (of_nat (length r))) pos2 r,
                                     pos2 + length r)
                        | None \<Rightarrow> (writeUint32LE d3 9 0, pos2))
      in case Entry n of
           Some e \<Rightarrow> copy_at (writeUint32LE d4 13 (of_nat (length e))) pos3 (bytes_of (ChildR n))
         | None \<Rightarrow> writeUint32LE d4 13 0)"

section \<open>Tree nodes\<close>

text \<open>
  Modelled from the spec: the declarations of the tree library
  (\<^verbatim>\<open>github.com/iden3/go-merkletree-sql/v2\<close>: \<^verbatim>\<open>Hash\<close>, \<^verbatim>\<open>ElemBytesLen\<close>,
  \<^verbatim>\<open>NodeType\<close> and its values, \<^verbatim>\<open>Node\<close>) are not among the sources. The spec's
  fixed-size hash is \<^verbatim>\<open>Hash = [32]byte\<close> (here a byte list, of length 32 wherever the
  program built it) and \<^verbatim>\<open>ElemBytesLen\<close> is 32, the size that the bounds \<^verbatim>\<open>0:32\<close> and
  \<^verbatim>\<open>32:64\<close> in \<^verbatim>\<open>Node()\<close> assume. The node kinds Middle, Leaf and Empty are the
  bytes 0, 1 and 2. A tree node has a kind, two optional child hashes (pointers) and an
  entry of two optional hashes.
\<close>

type_synonym Hash = "byte list"

definition ElemBytesLen :: nat where
  "ElemBytesLen = 32"

definition zeroHash :: Hash where
  "zeroHash = replicate 32 0"

definition NodeTypeMiddle :: byte where
  "NodeTypeMiddle = 0"

definition NodeTypeLeaf :: byte where
  "NodeTypeLeaf = 1"

definition NodeTypeEmpty :: byte where
  "NodeTypeEmpty = 2"

record merkletree_Node =
  node_Type :: byte
  node_ChildL :: "Hash option"
  node_ChildR :: "Hash option"
  node_Entry :: "Hash option \<times> Hash option"

definition Node :: "NodeItem \<Rightarrow> error + merkletree_Node" where
  "Node item =
     (let childL = (case ChildL item of None \<Rightarrow> None | Some l \<Rightarrow> Some (copy zeroHash l));
          childR = (case ChildR item of None \<Rightarrow> None | Some r \<Rightarrow> Some (copy zeroHash r))
      in if len (Entry item) > 0 then
           if len (Entry item) \<noteq> 2 * ElemBytesLen then Inl ErrNodeBytesBadSize
           else Inr \<lparr>node_Type = Type item, node_ChildL = childL, node_ChildR = childR,
                     node_Entry = (Some (copy zeroHash (slice_of (bytes_of (Entry item)) 0 32)),
                                   Some (copy zeroHash (slice_of (bytes_of (Entry item)) 32 64)))\<rparr>
         else Inr \<lparr>node_Type = Type item, node_ChildL = childL, node_ChildR = childR,
                   node_Entry = (None, None)\<rparr>)"

section \<open>Hexadecimal text\<close>

text \<open>
  Modelled from the spec: the hex encoding of stored values is \<^verbatim>\<open>encoding/hex\<close> of the
  Go standard library, which is not among the sources. \<^verbatim>\<open>EncodeToString\<close> writes two
  lower-case digits per byte, high nibble first; \<^verbatim>\<open>DecodeString\<close> accepts digits of
  either case and fails on any other character and on an odd length. The package only
  tests whether decoding failed, so the failure is \<open>None\<close>.
\<close>

definition hextable :: string where
  "hextable = ''0123456789abcdef''"

definition hex_EncodeToString :: "byte list \<Rightarrow> string" where
  "hex_EncodeToString src =
     concat (map (\<lambda>v. [hextable ! unat (drop_bit 4 v), hextable ! unat (v AND 0x0f)]) src)"

definition fromHexChar :: "char \<Rightarrow> byte option" where
  "fromHexChar c =
     (let b = of_char c :: byte in
      if 0x30 \<le> b \<and> b \<le> 0x39 then Some (b - 0x30)
      else if 0x61 \<le> b \<and> b \<le> 0x66 then Some (b - 0x61 + 10)
      else if 0x41 \<le> b \<and> b \<le> 0x46 then Some (b - 0x41 + 10)
      else None)"

fun hex_DecodeString :: "string \<Rightarrow> byte list option" where
  "hex_DecodeString [] = Some []"
| "hex_DecodeString [p] = None"
| "hex_DecodeString (p # q # rest) =
     (case fromHexChar p of
        None \<Rightarrow> None
      | Some a \<Rightarrow>
          (case fromHexChar q of
             None \<Rightarrow> None
           | Some b \<Rightarrow>
               (case hex_DecodeString rest of
                  None \<Rightarrow> None
                | Some bs \<Rightarrow> Some ((push_bit 4 a OR b) # bs))))"

section \<open>The key-value client\<close>

text \<open>
  Modelled from the spec: the key-value client (\<^verbatim>\<open>github.com/go-redis/redis/v9\<close>) is
  not among the sources; the spec gives its interface as \<^verbatim>\<open>get\<close> returning a value,
  a not-found signal or an error, and \<^verbatim>\<open>set\<close> returning an error or nothing. Its
  database is a map from keys to values, shared by every handle that points at it.
  Whether one call fails (connection lost, context cancelled) is decided outside the
  program, so each operation takes the outcome of its single client call as an argument:
  \<open>None\<close> when the call goes through, \<open>Some msg\<close> when the client reports an error.
  A \<^verbatim>\<open>Set\<close> that goes through replaces the value under the key (expiration 0: the
  value is kept); one that fails is taken to leave the database as it was.
\<close>

type_synonym redis = "string \<rightharpoonup> string"
type_synonym fault = "string option"

datatype StringCmd = CmdVal string | CmdNil | CmdErr string

definition redis_Get :: "fault \<Rightarrow> redis \<Rightarrow> string \<Rightarrow> StringCmd" where
  "redis_Get f db k =
     (case f of
        Some msg \<Rightarrow> CmdErr msg
      | None \<Rightarrow> (case db k of None \<Rightarrow> CmdNil | Some v \<Rightarrow> CmdVal v))"

definition redis_Set :: "fault \<Rightarrow> redis \<Rightarrow> string \<Rightarrow> string \<Rightarrow> error option \<times> redis" where
  "redis_Set f db k v =
     (case f of
        Some msg \<Rightarrow> (Some (ClientError msg), db)
      | None \<Rightarrow> (None, db(k \<mapsto> v)))"

section \<open>The storage handle\<close>

definition merkleTreeNodeBase :: string where
  "merkleTreeNodeBase = ''mt_n_''"

definition merkleTreeRootBase :: string where
  "merkleTreeRootBase = ''mt_r_''"

text \<open>The handle's \<^verbatim>\<open>db\<close> field is a pointer to the client; the database it points at
  is passed to and returned from each operation.\<close>

record Storage =
  nodeIdPrefix :: string
  rootId :: string
  currentRoot :: "Hash option"

definition NewMerkleRedisStorage :: "string \<Rightarrow> Storage" where
  "NewMerkleRedisStorage prefix =
     \<lparr>nodeIdPrefix = merkleTreeNodeBase @ prefix @ ''_'',
      rootId = merkleTreeRootBase @ prefix,
      currentRoot = None\<rparr>"

definition getRedisNodeIdForMerkleKey :: "Storage \<Rightarrow> slice \<Rightarrow> string" where
  "getRedisNodeIdForMerkleKey s key = nodeIdPrefix s @ hex_EncodeToString (bytes_of key)"

definition Get :: "fault \<Rightarrow> Storage \<Rightarrow> redis \<Rightarrow> slice \<Rightarrow> error + merkletree_Node" where
  "Get f s db key =
     (case redis_Get f db (getRedisNodeIdForMerkleKey s key) of
        CmdNil \<Rightarrow> Inl ErrNotFound
      | CmdErr msg \<Rightarrow> Inl (ClientError msg)
      | CmdVal v \<Rightarrow>
          (case hex_DecodeString v of
             None \<Rightarrow> Inl (Errorf ''corrupt key hex'')
           | Some d \<Rightarrow>
               (case bytesToNodeItem d of
                  Inl err \<Rightarrow> Inl err
                | Inr item \<Rightarrow>
                    (case Node item of
                       Inl err \<Rightarrow> Inl err
                     | Inr node \<Rightarrow> Inr node))))"

text \<open>The \<^verbatim>\<open>item\<close> that \<^verbatim>\<open>Put\<close> builds from its arguments. It starts as
  \<^verbatim>\<open>&NodeItem{Key: key}\<close>: the type byte is never assigned and stays 0.\<close>

definition Put_item :: "slice \<Rightarrow> merkletree_Node \<Rightarrow> NodeItem" where
  "Put_item key node =
     (let item0 = \<lparr>Type = 0, Key = key, ChildL = None, ChildR = None, Entry = None\<rparr>;
          item1 = (case node_ChildL node of
                     Some h \<Rightarrow> item0\<lparr>ChildL := append_slice (ChildL item0) h\<rparr>
                   | None \<Rightarrow> item0);
          item2 = (case node_ChildR node of
                     Some h \<Rightarrow> item1\<lparr>ChildR := append_slice (ChildR item1) h\<rparr>
                   | None \<Rightarrow> item1)
      in case node_Entry node of
           (Some e0, Some e1) \<Rightarrow> item2\<lparr>Entry := append_slice (Some e0) e1\<rparr>
         | _ \<Rightarrow> item2)"

definition Put :: "fault \<Rightarrow> Storage \<Rightarrow> redis \<Rightarrow> slice \<Rightarrow> merkletree_Node \<Rightarrow> error option \<times> redis" where
  "Put f s db key node =
     redis_Set f db (getRedisNodeIdForMerkleKey s key)
       (hex_EncodeToString (nodeItemToBytes (Put_item key node)))"

text \<open>\<^verbatim>\<open>GetRoot\<close> and \<^verbatim>\<open>SetRoot\<close> also return the handle, whose cached root they may
  change.\<close>

definition GetRoot :: "fault \<Rightarrow> Storage \<Rightarrow> redis \<Rightarrow> (error + Hash) \<times> Storage" where
  "GetRoot f s db =
     (case currentRoot s of
        Some cur \<Rightarrow> (Inr (copy zeroHash cur), s)
      | None \<Rightarrow>
          (case redis_Get f db (rootId s) of
             CmdNil \<Rightarrow> (Inl ErrNotFound, s)
           | CmdErr msg \<Rightarrow> (Inl (ClientError msg), s)
           | CmdVal v \<Rightarrow>
               (case hex_DecodeString v of
                  None \<Rightarrow> (Inl (Errorf ''corrupt root hex''), s)
                | Some d \<Rightarrow>
                    (let cur0 = (case currentRoot s of None \<Rightarrow> zeroHash | Some c \<Rightarrow> c);
                         cur = copy cur0 d
                     in (Inr (copy zeroHash cur), s\<lparr>currentRoot := Some cur\<rparr>)))))"

definition SetRoot :: "fault \<Rightarrow> Storage \<Rightarrow> redis \<Rightarrow> Hash \<Rightarrow> error option \<times> Storage \<times> redis" where
  "SetRoot f s db hash =
     (let cur0 = (case currentRoot s of None \<Rightarrow> zeroHash | Some c \<Rightarrow> c);
          s' = s\<lparr>currentRoot := Some (copy cur0 hash)\<rparr>;
          (res, db') = redis_Set f db (rootId s) (hex_EncodeToString hash)
      in case res of
           Some err \<Rightarrow> (Some (newErr err ''failed to update current root hash''), s', db')
         | None \<Rightarrow> (None, s', db'))"

section \<open>Notions used in the statements\<close>

text \<open>The four bytes that \<^verbatim>\<open>writeUint32LE\<close> stores for a value, lowest byte first.\<close>

definition le32 :: "uint32 \<Rightarrow> byte list" where
  "le32 v = [ucast (v AND 0xff), ucast (drop_bit 8 v AND 0xff),
             ucast (drop_bit 16 v AND 0xff), ucast (drop_bit 24 v AND 0xff)]"

text \<open>The sum of the four segment lengths that the header of a buffer declares.\<close>

definition declared :: "byte list \<Rightarrow> nat" where
  "declared d = unat (readUint32LE d 1) + unat (readUint32LE d 5) +
                unat (readUint32LE d 9) + unat (readUint32LE d 13)"

text \<open>Concrete values for the examples.\<close>

definition shortBuffer :: "byte list" where
  "shortBuffer = [1, 0, 0, 0]"

definition overflowBuffer :: "byte list" where
  "overflowBuffer = [0, 1, 0, 0, 0, 0, 0, 0, 0, 0, 0, 0, 0, 0, 0, 0, 0]"

definition exactBuffer :: "byte list" where
  "exactBuffer = [2, 1, 0, 0, 0, 0, 0, 0, 0, 0, 0, 0, 0, 0, 0, 0, 0, 0x2a]"

definition trailingBuffer :: "byte list" where
  "trailingBuffer = [2, 1, 0, 0, 0, 0, 0, 0, 0, 0, 0, 0, 0, 0, 0, 0, 0, 0x2a, 0x2b]"

definition badEntryBuffer :: "byte list" where
  "badEntryBuffer = [1, 0, 0, 0, 0, 0, 0, 0, 0, 0, 0, 0, 0, 1, 0, 0, 0, 0x2a]"

definition badEntryItem :: NodeItem where
  "badEntryItem = \<lparr>Type = 1, Key = Some [], ChildL = Some [], ChildR = Some [], Entry = Some [0x2a]\<rparr>"

text \<open>What the encoder leaves in the entry segment: as many bytes as \<^verbatim>\<open>Entry\<close> has,
  taken from \<^verbatim>\<open>ChildR\<close>, and zero where \<^verbatim>\<open>ChildR\<close> has no more bytes.\<close>

definition entry_segment :: "NodeItem \<Rightarrow> byte list" where
  "entry_segment n =
     take (len (Entry n)) (bytes_of (ChildR n)) @ replicate (len (Entry n) - len (ChildR n)) 0"

text \<open>A \<^verbatim>\<open>*Hash\<close> points at 32 bytes: the invariant of the type \<^verbatim>\<open>[32]byte\<close>, stated
  for the nodes and handles that the operations receive.\<close>

definition valid_Hash :: "Hash option \<Rightarrow> bool" where
  "valid_Hash h = (case h of None \<Rightarrow> True | Some bs \<Rightarrow> length bs = 32)"

definition valid_Node :: "merkletree_Node \<Rightarrow> bool" where
  "valid_Node node =
     (valid_Hash (node_ChildL node) \<and> valid_Hash (node_ChildR node) \<and>
      valid_Hash (fst (node_Entry node)) \<and> valid_Hash (snd (node_Entry node)))"

definition valid_Storage :: "Storage \<Rightarrow> bool" where
  "valid_Storage s = valid_Hash (currentRoot s)"

definition emptyStore :: redis where
  "emptyStore = Map.empty"

definition storeP1 :: Storage where
  "storeP1 = NewMerkleRedisStorage ''p1''"

definition hashA :: Hash where
  "hashA = replicate 32 0xaa"

definition hashB :: Hash where
  "hashB = replicate 32 0xbb"

definition keyK :: slice where
  "keyK = Some (replicate 32 0x07)"

definition leafNode :: merkletree_Node where
  "leafNode = \<lparr>node_Type = NodeTypeLeaf, node_ChildL = None, node_ChildR = None,
               node_Entry = (Some hashA, Some hashB)\<rparr>"

definition middleItem :: NodeItem where
  "middleItem = \<lparr>Type = 0, Key = Some (replicate 32 0x07), ChildL = Some hashA,
                 ChildR = Some hashB, Entry = None\<rparr>"

text \<open>A node item whose key has \<open>2 ^ 32\<close> bytes, one more than a 32-bit length field can
  declare.\<close>

definition longKeyItem :: NodeItem where
  "longKeyItem = \<lparr>Type = 0, Key = Some (replicate 4294967296 0x07), ChildL = None,
                  ChildR = None, Entry = None\<rparr>"

text \<open>A node item whose entry has \<open>2 ^ 32\<close> bytes.\<close>

definition longEntryItem :: NodeItem where
  "longEntryItem = \<lparr>Type = 1, Key = Some [0x07], ChildL = None, ChildR = None,
                    Entry = Some (replicate 4294967296 0xaa)\<rparr>"

definition exactItem :: NodeItem where
  "exactItem = \<lparr>Type = 2, Key = Some [0x2a], ChildL = Some [], ChildR = Some [], Entry = Some []\<rparr>"

definition childRItem :: NodeItem where
  "childRItem = \<lparr>Type = 1, Key = Some [0x07], ChildL = None, ChildR = Some [0x11, 0x22, 0x33],
                 Entry = Some [0xaa, 0xbb]\<rparr>"

section \<open>Little-endian fields: reading back what was written\<close>

lemma ff_mask: "(0xff :: uint32) = mask 8"
  by (simp add: mask_eq_exp_minus_1)

lemma ucast_and_ff: "(ucast ((w :: uint32) AND 0xff) :: byte) = ucast w"
  unfolding ff_mask
  by (rule bit_word_eqI) (simp add: bit_simps)

lemma ucast_ucast_byte: "(ucast (ucast (w :: uint32) :: byte) :: uint32) = take_bit 8 w"
  by (rule bit_word_eqI) (auto simp add: bit_simps)

lemma le32_read:
  "push_bit 24 (ucast (ucast (drop_bit 24 v AND 0xff) :: byte)) OR
   push_bit 16 (ucast (ucast (drop_bit 16 v AND 0xff) :: byte)) OR
   push_bit 8 (ucast (ucast (drop_bit 8 v AND 0xff) :: byte)) OR
   ucast (ucast (v AND 0xff) :: byte) = (v :: uint32)"
  unfolding ucast_and_ff ucast_ucast_byte
proof (rule bit_word_eqI)
  fix n
  assume "n < LENGTH(32)"
  then have n: "n < 32"
    by simp
  consider "n < 8" | "8 \<le> n" "n < 16" | "16 \<le> n" "n < 24" | "24 \<le> n"
    by linarith
  then show "bit (push_bit 24 (take_bit 8 (drop_bit 24 v)) OR push_bit 16 (take_bit 8 (drop_bit 16 v)) OR
      push_bit 8 (take_bit 8 (drop_bit 8 v)) OR take_bit 8 v) n = bit v n"
  proof cases
    case 1
    then show ?thesis
      by (simp add: bit_simps)
  next
    case 2
    then show ?thesis
      by (auto simp add: bit_simps)
  next
    case 3
    then show ?thesis
      by (auto simp add: bit_simps)
  next
    case 4
    with n show ?thesis
      by (auto simp add: bit_simps)
  qed
qed


lemma read_le32: "length pre = i \<Longrightarrow> readUint32LE (pre @ le32 v @ post) i = v"
  by (simp add: readUint32LE_def le32_def nth_append le32_read)

lemma write_le32: "length pre = i \<Longrightarrow> length old = 4 \<Longrightarrow> writeUint32LE (pre @ old @ post) i v = pre @ le32 v @ post"
  apply (cases old; simp)
  subgoal for a as
    apply (cases as; simp)
    subgoal for b bs
      apply (cases bs; simp)
      subgoal for c cs
        apply (cases cs; simp add: writeUint32LE_def Let_def le32_def list_update_append)
        done
      done
    done
  done


lemma copy_at_mid:
  "length pre = pos \<Longrightarrow> length mid = length src \<Longrightarrow> copy_at (pre @ mid @ post) pos src = pre @ src @ post"
  by (simp add: copy_at_def copy_def Let_def min_def)

lemma copy_at_zeros:
  "length pre = pos \<Longrightarrow> copy_at (pre @ replicate m 0) pos src = pre @ take m src @ replicate (m - length src) 0"
  by (simp add: copy_at_def copy_def Let_def min_def)

lemma field_step:
  assumes "length pre = i" "length old = 4" "length (pre @ old @ mid) = pos"
  shows "(case s of
            Some k \<Rightarrow> (copy_at (writeUint32LE (pre @ old @ mid @ replicate (len s) 0 @ post) i (of_nat (length k))) pos k,
                       pos + length k)
          | None \<Rightarrow> (writeUint32LE (pre @ old @ mid @ replicate (len s) 0 @ post) i 0, pos))
         = (pre @ le32 (of_nat (len s)) @ mid @ bytes_of s @ post, pos + len s)"
proof (cases s)
  case None
  then show ?thesis using assms by (simp add: write_le32)
next
  case (Some k)
  have "copy_at ((pre @ le32 (of_nat (length k)) @ mid) @ replicate (length k) 0 @ post) pos k
        = (pre @ le32 (of_nat (length k)) @ mid) @ k @ post"
    by (rule copy_at_mid) (use assms in \<open>simp_all add: le32_def\<close>)
  then show ?thesis using Some assms by (simp add: write_le32)
qed

lemma entry_step:
  assumes "length pre = 13" "length old = 4" "length (pre @ old @ mid) = pos"
  shows "(case s of
            Some e \<Rightarrow> copy_at (writeUint32LE (pre @ old @ mid @ replicate (len s) 0) 13 (of_nat (length e))) pos src
          | None \<Rightarrow> writeUint32LE (pre @ old @ mid @ replicate (len s) 0) 13 0)
         = pre @ le32 (of_nat (len s)) @ mid @ take (len s) src @ replicate (len s - length src) 0"
proof (cases s)
  case None
  then show ?thesis using assms by (simp add: write_le32)
next
  case (Some e)
  have "copy_at ((pre @ le32 (of_nat (length e)) @ mid) @ replicate (length e) 0) pos src
        = (pre @ le32 (of_nat (length e)) @ mid) @ take (length e) src @ replicate (length e - length src) 0"
    by (rule copy_at_zeros) (use assms in \<open>simp_all add: le32_def\<close>)
  then show ?thesis using Some assms by (simp add: write_le32)
qed

lemma zero_buffer:
  "(replicate (17 + k + l + r + e) (0::byte))[0 := t] =
     [t] @ replicate 4 0 @ (replicate 4 0 @ replicate 4 0 @ replicate 4 0) @ replicate k 0 @ replicate l 0 @ replicate r 0 @ replicate e 0"
proof -
  have "replicate (17 + k + l + r + e) (0::byte) = replicate 17 0 @ replicate k 0 @ replicate l 0 @ replicate r 0 @ replicate e 0"
    by (simp add: replicate_add)
  then show ?thesis by (simp add: numeral_eq_Suc)
qed

lemma length_bytes_of: "length (bytes_of s) = len s"
  by (cases s) simp_all

lemma nodeItemToBytes_layout:
  "nodeItemToBytes n =
     Type n # le32 (of_nat (len (Key n))) @ le32 (of_nat (len (ChildL n))) @
     le32 (of_nat (len (ChildR n))) @ le32 (of_nat (len (Entry n))) @
     bytes_of (Key n) @ bytes_of (ChildL n) @ bytes_of (ChildR n) @
     take (len (Entry n)) (bytes_of (ChildR n)) @ replicate (len (Entry n) - len (ChildR n)) 0"
proof -
  let ?t = "Type n" and ?k = "Key n" and ?l = "ChildL n" and ?r = "ChildR n" and ?e = "Entry n"
  let ?z = "replicate 4 (0::byte)"
  let ?K = "le32 (of_nat (len ?k))" and ?L = "le32 (of_nat (len ?l))"
  let ?R = "le32 (of_nat (len ?r))" and ?E = "le32 (of_nat (len ?e))"
  let ?zk = "replicate (len ?k) (0::byte)" and ?zl = "replicate (len ?l) (0::byte)"
  let ?zr = "replicate (len ?r) (0::byte)" and ?ze = "replicate (len ?e) (0::byte)"
  let ?d1 = "[?t] @ ?z @ (?z @ ?z @ ?z) @ ?zk @ (?zl @ ?zr @ ?ze)"
  let ?d2 = "([?t] @ ?K) @ ?z @ ((?z @ ?z) @ bytes_of ?k) @ ?zl @ (?zr @ ?ze)"
  let ?d3 = "([?t] @ ?K @ ?L) @ ?z @ (?z @ bytes_of ?k @ bytes_of ?l) @ ?zr @ ?ze"
  let ?d4 = "([?t] @ ?K @ ?L @ ?R) @ ?z @ (bytes_of ?k @ bytes_of ?l @ bytes_of ?r) @ ?ze"
  note lk = length_bytes_of [of ?k] and ll = length_bytes_of [of ?l] and lr = length_bytes_of [of ?r]
  have d1: "(replicate (17 + len ?k + len ?l + len ?r + len ?e) 0)[0 := ?t] = ?d1"
    by (rule zero_buffer)
  have s1: "(case ?k of
              Some k \<Rightarrow> (copy_at (writeUint32LE ?d1 1 (of_nat (length k))) 17 k, 17 + length k)
            | None \<Rightarrow> (writeUint32LE ?d1 1 0, 17)) = (?d2, 17 + len ?k)"
    using field_step [of "[?t]" 1 ?z "?z @ ?z @ ?z" 17 ?k "?zl @ ?zr @ ?ze"] by simp
  have s2: "(case ?l of
              Some l \<Rightarrow> (copy_at (writeUint32LE ?d2 5 (of_nat (length l))) (17 + len ?k) l,
                         17 + len ?k + length l)
            | None \<Rightarrow> (writeUint32LE ?d2 5 0, 17 + len ?k)) = (?d3, 17 + len ?k + len ?l)"
    using field_step [of "[?t] @ ?K" 5 ?z "(?z @ ?z) @ bytes_of ?k" "17 + len ?k" ?l "?zr @ ?ze"]
    by (simp add: le32_def lk)
  have s3: "(case ?r of
              Some r \<Rightarrow> (copy_at (writeUint32LE ?d3 9 (of_nat (length r))) (17 + len ?k + len ?l) r,
                         17 + len ?k + len ?l + length r)
            | None \<Rightarrow> (writeUint32LE ?d3 9 0, 17 + len ?k + len ?l))
            = (?d4, 17 + len ?k + len ?l + len ?r)"
    using field_step [of "[?t] @ ?K @ ?L" 9 ?z "?z @ bytes_of ?k @ bytes_of ?l"
        "17 + len ?k + len ?l" ?r ?ze]
    by (simp add: le32_def lk ll)
  have s4: "(case ?e of
              Some e \<Rightarrow> copy_at (writeUint32LE ?d4 13 (of_nat (length e)))
                          (17 + len ?k + len ?l + len ?r) (bytes_of ?r)
            | None \<Rightarrow> writeUint32LE ?d4 13 0)
            = ([?t] @ ?K @ ?L @ ?R) @ ?E @ (bytes_of ?k @ bytes_of ?l @ bytes_of ?r) @
              take (len ?e) (bytes_of ?r) @ replicate (len ?e - length (bytes_of ?r)) 0"
    by (rule entry_step) (simp_all add: le32_def lk ll lr)
  show ?thesis
    unfolding nodeItemToBytes_def Let_def d1 s1 prod.case s2 s3 s4
    by (simp add: lr)
qed


lemma length_le32: "length (le32 v) = 4"
  by (simp add: le32_def)

lemma bytesToNodeItem_append:
  assumes len: "length hdr = 17"
    and fits: "unat (readUint32LE (hdr @ body) 1) + unat (readUint32LE (hdr @ body) 5) +
               unat (readUint32LE (hdr @ body) 9) + unat (readUint32LE (hdr @ body) 13) \<le> length body"
  shows "bytesToNodeItem (hdr @ body) =
           Inr \<lparr>Type = hdr ! 0,
                Key = Some (take (unat (readUint32LE (hdr @ body) 1)) body),
                ChildL = Some (take (unat (readUint32LE (hdr @ body) 5))
                           (drop (unat (readUint32LE (hdr @ body) 1)) body)),
                ChildR = Some (take (unat (readUint32LE (hdr @ body) 9))
                           (drop (unat (readUint32LE (hdr @ body) 1) + unat (readUint32LE (hdr @ body) 5)) body)),
                Entry = Some (take (unat (readUint32LE (hdr @ body) 13))
                           (drop (unat (readUint32LE (hdr @ body) 1) + unat (readUint32LE (hdr @ body) 5) +
                                  unat (readUint32LE (hdr @ body) 9)) body))\<rparr>"
  using len fits by (simp add: bytesToNodeItem_def Let_def slice_of_def nth_append add.assoc)

lemma bytesToNodeItem_frame:
  assumes fits: "unat a + unat b + unat c + unat e \<le> length body"
  shows "bytesToNodeItem (t # le32 a @ le32 b @ le32 c @ le32 e @ body) =
           Inr \<lparr>Type = t,
                Key = Some (take (unat a) body),
                ChildL = Some (take (unat b) (drop (unat a) body)),
                ChildR = Some (take (unat c) (drop (unat a + unat b) body)),
                Entry = Some (take (unat e) (drop (unat a + unat b + unat c) body))\<rparr>"
proof -
  let ?hdr = "t # le32 a @ le32 b @ le32 c @ le32 e"
  let ?d = "?hdr @ body"
  have len: "length ?hdr = 17"
    by (simp add: length_le32)
  have ra: "readUint32LE ?d 1 = a"
    using read_le32 [of "[t]" 1 a "le32 b @ le32 c @ le32 e @ body"] by simp
  have rb: "readUint32LE ?d 5 = b"
    using read_le32 [of "t # le32 a" 5 b "le32 c @ le32 e @ body"] by (simp add: length_le32)
  have rc: "readUint32LE ?d 9 = c"
    using read_le32 [of "t # le32 a @ le32 b" 9 c "le32 e @ body"] by (simp add: length_le32)
  have re: "readUint32LE ?d 13 = e"
    using read_le32 [of "t # le32 a @ le32 b @ le32 c" 13 e body] by (simp add: length_le32)
  have "bytesToNodeItem ?d =
           Inr \<lparr>Type = ?hdr ! 0,
                Key = Some (take (unat a) body),
                ChildL = Some (take (unat b) (drop (unat a) body)),
                ChildR = Some (take (unat c) (drop (unat a + unat b) body)),
                Entry = Some (take (unat e) (drop (unat a + unat b + unat c) body))\<rparr>"
    using bytesToNodeItem_append [of ?hdr body] len fits unfolding ra rb rc re by blast
  then show ?thesis by simp
qed

section \<open>The decoder's checks\<close>

lemma bytesToNodeItem_short:
  "length b < 17 \<Longrightarrow> bytesToNodeItem b = Inl CorruptHeader"
  by (simp add: bytesToNodeItem_def CorruptHeader_def)

lemma bytesToNodeItem_overflow:
  "17 \<le> length b \<Longrightarrow> length b < 17 + declared b \<Longrightarrow> bytesToNodeItem b = Inl LengthOverflow"
  by (simp add: bytesToNodeItem_def LengthOverflow_def declared_def Let_def)

lemma bytesToNodeItem_accepts:
  "17 \<le> length b \<Longrightarrow> 17 + declared b \<le> length b \<Longrightarrow>
   bytesToNodeItem b =
     Inr \<lparr>Type = b ! 0,
          Key = Some (slice_of b 17 (17 + unat (readUint32LE b 1))),
          ChildL = Some (slice_of b (17 + unat (readUint32LE b 1))
                     (17 + unat (readUint32LE b 1) + unat (readUint32LE b 5))),
          ChildR = Some (slice_of b (17 + unat (readUint32LE b 1) + unat (readUint32LE b 5))
                     (17 + unat (readUint32LE b 1) + unat (readUint32LE b 5) + unat (readUint32LE b 9))),
          Entry = Some (slice_of b (17 + unat (readUint32LE b 1) + unat (readUint32LE b 5) + unat (readUint32LE b 9))
                     (17 + unat (readUint32LE b 1) + unat (readUint32LE b 5) + unat (readUint32LE b 9) +
                      unat (readUint32LE b 13)))\<rparr>"
  by (simp add: bytesToNodeItem_def declared_def Let_def)

lemma declared_bound: "declared b + 17 < 2 ^ 63"
proof -
  have "unat w < 2 ^ 32" for w :: uint32
    using unsigned_less [of w, where 'a = nat] by simp
  from this [of "readUint32LE b 1"] this [of "readUint32LE b 5"]
    this [of "readUint32LE b 9"] this [of "readUint32LE b 13"]
  show ?thesis
    by (simp add: declared_def)
qed

lemma bytesToNodeItem_slices_in_range:
  assumes "bytesToNodeItem b = Inr item"
  shows "17 + declared b \<le> length b"
  using assms by (auto simp add: bytesToNodeItem_def declared_def Let_def split: if_splits)

text \<open>
  Claim C8. A buffer shorter than 17 bytes is rejected with the invalid-header error
  (\<open>CorruptHeader\<close>). A buffer of at least 17 bytes whose header declares more segment
  bytes than follow it, \<open>17 + keyLen + childLLen + childRLen + entryLen > len b\<close>, is
  rejected with the overflow error (\<open>LengthOverflow\<close>). When neither condition holds the
  decoder returns neither error: it returns a node item.
\<close>

theorem bytesToNodeItem_header_errors:
  "(length b < 17 \<longrightarrow> bytesToNodeItem b = Inl CorruptHeader) \<and>
   (17 \<le> length b \<and> length b < 17 + declared b \<longrightarrow> bytesToNodeItem b = Inl LengthOverflow) \<and>
   (17 \<le> length b \<and> 17 + declared b \<le> length b \<longrightarrow>
      bytesToNodeItem b \<noteq> Inl CorruptHeader \<and> bytesToNodeItem b \<noteq> Inl LengthOverflow \<and>
      (\<exists>item. bytesToNodeItem b = Inr item))"
  by (simp add: bytesToNodeItem_short bytesToNodeItem_overflow bytesToNodeItem_accepts)

lemma declared_shortBuffer: "length shortBuffer = 4"
  by (simp add: shortBuffer_def)

lemma declared_overflowBuffer: "declared overflowBuffer = 1" "length overflowBuffer = 17"
  by (simp_all add: overflowBuffer_def declared_def readUint32LE_def)

lemma declared_exactBuffer: "declared exactBuffer = 1" "length exactBuffer = 18"
  by (simp_all add: exactBuffer_def declared_def readUint32LE_def)

lemma declared_trailingBuffer: "declared trailingBuffer = 1" "length trailingBuffer = 19"
  by (simp_all add: trailingBuffer_def declared_def readUint32LE_def)

theorem bytesToNodeItem_header_errors_witness:
  "length shortBuffer < 17 \<and> bytesToNodeItem shortBuffer = Inl CorruptHeader \<and>
   17 \<le> length overflowBuffer \<and> length overflowBuffer < 17 + declared overflowBuffer \<and>
   bytesToNodeItem overflowBuffer = Inl LengthOverflow \<and>
   17 \<le> length exactBuffer \<and> 17 + declared exactBuffer \<le> length exactBuffer \<and>
   bytesToNodeItem exactBuffer \<noteq> Inl CorruptHeader \<and> bytesToNodeItem exactBuffer \<noteq> Inl LengthOverflow"
  using bytesToNodeItem_header_errors [of shortBuffer]
    bytesToNodeItem_header_errors [of overflowBuffer]
    bytesToNodeItem_header_errors [of exactBuffer]
  by (simp add: declared_shortBuffer declared_overflowBuffer declared_exactBuffer)

text \<open>
  Claim C4 says that a buffer is rejected unless the declared lengths plus 17 are exactly
  its length. The guard of the source is \<^verbatim>\<open>> len(d)\<close>: a buffer with bytes left over
  is accepted. \<open>trailingBuffer\<close> declares a key of one byte and nothing else, has 19
  bytes, and decodes.
\<close>

theorem trailing_bytes_counterexample:
  "17 \<le> length trailingBuffer \<and> declared trailingBuffer + 17 < length trailingBuffer \<and>
   bytesToNodeItem trailingBuffer =
     Inr \<lparr>Type = 2, Key = Some [0x2a], ChildL = Some [], ChildR = Some [], Entry = Some []\<rparr>"
proof -
  have "bytesToNodeItem trailingBuffer =
     Inr \<lparr>Type = 2, Key = Some [0x2a], ChildL = Some [], ChildR = Some [], Entry = Some []\<rparr>"
    by (simp add: bytesToNodeItem_def Let_def trailingBuffer_def readUint32LE_def slice_of_def)
  then show ?thesis
    by (simp add: declared_trailingBuffer)
qed

lemma readUint32LE_append:
  "i + 3 < length b \<Longrightarrow> readUint32LE (b @ extra) i = readUint32LE b i"
  by (simp add: readUint32LE_def nth_append)

lemma declared_append: "17 \<le> length b \<Longrightarrow> declared (b @ extra) = declared b"
  by (simp add: declared_def readUint32LE_append)

lemma bytesToNodeItem_ignores_trailing:
  assumes "17 \<le> length b" "17 + declared b \<le> length b"
  shows "bytesToNodeItem (b @ extra) = bytesToNodeItem b"
proof -
  have "17 \<le> length (b @ extra)" "17 + declared (b @ extra) \<le> length (b @ extra)"
    using assms by (simp_all add: declared_append)
  note big = bytesToNodeItem_accepts [OF this]
  have ne: "0 < length b"
    using assms(1) by linarith
  have fits: "unat (readUint32LE b 1) + unat (readUint32LE b 5) + unat (readUint32LE b 9) +
              unat (readUint32LE b 13) + 17 \<le> length b"
    using assms by (simp add: declared_def)
  show ?thesis
    unfolding big bytesToNodeItem_accepts [OF assms]
    using ne fits assms(1) by (simp add: readUint32LE_append slice_of_def nth_append)
qed

text \<open>
  Claim C4, amended. For every buffer of at least 17 bytes, decoding fails exactly when
  the declared lengths plus 17 exceed the length of the buffer. A buffer whose declared
  lengths plus 17 are at most its length is accepted, and bytes after the declared
  segments are ignored: appending any bytes to an accepted buffer gives the same result.
\<close>

theorem bytesToNodeItem_rejects_iff:
  assumes "17 \<le> length b"
  shows "((\<exists>err. bytesToNodeItem b = Inl err) \<longleftrightarrow> length b < declared b + 17) \<and>
         (declared b + 17 \<le> length b \<longrightarrow> bytesToNodeItem (b @ extra) = bytesToNodeItem b)"
proof (cases "length b < 17 + declared b")
  case True
  with assms show ?thesis
    by (simp add: bytesToNodeItem_overflow)
next
  case False
  with assms bytesToNodeItem_ignores_trailing [of b extra] show ?thesis
    by (simp add: bytesToNodeItem_accepts)
qed

theorem bytesToNodeItem_rejects_iff_witness:
  "17 \<le> length exactBuffer \<and> declared exactBuffer + 17 \<le> length exactBuffer \<and>
   bytesToNodeItem (exactBuffer @ [0x2b]) = bytesToNodeItem exactBuffer \<and>
   \<not> length exactBuffer < declared exactBuffer + 17"
  using bytesToNodeItem_rejects_iff [of exactBuffer "[0x2b]"]
  by (simp add: declared_exactBuffer)

section \<open>Hexadecimal text: decoding what was encoded\<close>

lemma nibble_cases:
  "(n::nat) < 16 \<Longrightarrow> n \<in> {0, 1, 2, 3, 4, 5, 6, 7, 8, 9, 10, 11, 12, 13, 14, 15}"
  by simp arith

lemma fromHexChar_hextable:
  assumes "n < 16"
  shows "fromHexChar (hextable ! n) = Some (of_nat n)"
  using nibble_cases [OF assms]
  by (auto simp add: hextable_def fromHexChar_def)

lemma high_nibble_less: "unat (drop_bit 4 (v :: byte)) < 16"
proof -
  have "unat (drop_bit 4 v) = drop_bit 4 (unat v)"
    by (rule unat_drop_bit_eq)
  then have "unat (drop_bit 4 v) = unat v div 2 ^ 4"
    by (simp only: drop_bit_eq_div [of 4 "unat v"])
  moreover have "unat v < 2 ^ 8"
    using unsigned_less [of v, where 'a = nat] by simp
  ultimately show ?thesis
    by simp
qed

lemma low_nibble_less: "unat ((v :: byte) AND 0x0f) < 16"
proof -
  have "v AND 0x0f \<le> 0x0f"
    by (rule word_and_le1)
  then have "unat (v AND 0x0f) \<le> unat (0x0f :: byte)"
    by (simp only: word_le_nat_alt)
  then show ?thesis
    by simp
qed

lemma nibbles_join: "push_bit 4 (drop_bit 4 v) OR (v AND 0x0f) = (v :: byte)"
proof -
  have m: "(0x0f :: byte) = mask 4"
    by (simp add: mask_eq_exp_minus_1)
  show ?thesis
    unfolding m
    by (rule bit_word_eqI) (auto simp add: bit_simps)
qed

lemma hex_byte_roundtrip:
  "hex_DecodeString (hextable ! unat (drop_bit 4 v) # hextable ! unat (v AND 0x0f) # rest) =
     (case hex_DecodeString rest of None \<Rightarrow> None | Some bs \<Rightarrow> Some (v # bs))"
  by (simp add: fromHexChar_hextable high_nibble_less low_nibble_less nibbles_join
      split: option.split)

lemma hex_roundtrip: "hex_DecodeString (hex_EncodeToString bs) = Some bs"
proof (induction bs)
  case Nil
  then show ?case
    by (simp add: hex_EncodeToString_def)
next
  case (Cons v bs)
  have "hex_EncodeToString (v # bs) =
          hextable ! unat (drop_bit 4 v) # hextable ! unat (v AND 0x0f) # hex_EncodeToString bs"
    by (simp add: hex_EncodeToString_def)
  with Cons show ?case
    by (simp only: hex_byte_roundtrip option.case)
qed

section \<open>Decoding what the encoder wrote\<close>

lemma length_nodeItemToBytes:
  "length (nodeItemToBytes n) = 17 + len (Key n) + len (ChildL n) + len (ChildR n) + len (Entry n)"
  by (simp add: nodeItemToBytes_layout length_le32 length_bytes_of)

lemma length_entry_segment: "length (entry_segment n) = len (Entry n)"
  by (simp add: entry_segment_def length_bytes_of)

lemma nodeItemToBytes_frame:
  "nodeItemToBytes n =
     Type n # le32 (of_nat (len (Key n))) @ le32 (of_nat (len (ChildL n))) @
     le32 (of_nat (len (ChildR n))) @ le32 (of_nat (len (Entry n))) @
     (bytes_of (Key n) @ bytes_of (ChildL n) @ bytes_of (ChildR n) @ entry_segment n)"
  by (simp add: nodeItemToBytes_layout entry_segment_def)

lemma readUint32LE_nodeItemToBytes:
  "readUint32LE (nodeItemToBytes n) 1 = of_nat (len (Key n))"
  "readUint32LE (nodeItemToBytes n) 5 = of_nat (len (ChildL n))"
  "readUint32LE (nodeItemToBytes n) 9 = of_nat (len (ChildR n))"
  "readUint32LE (nodeItemToBytes n) 13 = of_nat (len (Entry n))"
proof -
  let ?a = "le32 (of_nat (len (Key n)))" and ?b = "le32 (of_nat (len (ChildL n)))"
  let ?c = "le32 (of_nat (len (ChildR n)))" and ?e = "le32 (of_nat (len (Entry n)))"
  let ?body = "bytes_of (Key n) @ bytes_of (ChildL n) @ bytes_of (ChildR n) @ entry_segment n"
  show "readUint32LE (nodeItemToBytes n) 1 = of_nat (len (Key n))"
    unfolding nodeItemToBytes_frame
    using read_le32 [of "[Type n]" 1 _ "?b @ ?c @ ?e @ ?body"] by simp
  show "readUint32LE (nodeItemToBytes n) 5 = of_nat (len (ChildL n))"
    unfolding nodeItemToBytes_frame
    using read_le32 [of "Type n # ?a" 5 _ "?c @ ?e @ ?body"] by (simp add: length_le32)
  show "readUint32LE (nodeItemToBytes n) 9 = of_nat (len (ChildR n))"
    unfolding nodeItemToBytes_frame
    using read_le32 [of "Type n # ?a @ ?b" 9 _ "?e @ ?body"] by (simp add: length_le32)
  show "readUint32LE (nodeItemToBytes n) 13 = of_nat (len (Entry n))"
    unfolding nodeItemToBytes_frame
    using read_le32 [of "Type n # ?a @ ?b @ ?c" 13 _ ?body] by (simp add: length_le32)
qed

lemma unat_of_nat_le: "unat (of_nat k :: uint32) \<le> k"
  by (simp add: unat_of_nat)

lemma unat_of_nat_small: "k < 2 ^ 32 \<Longrightarrow> unat (of_nat k :: uint32) = k"
  by (simp add: unat_of_nat)

lemma declared_nodeItemToBytes:
  "17 + declared (nodeItemToBytes n) \<le> length (nodeItemToBytes n)"
  unfolding declared_def readUint32LE_nodeItemToBytes length_nodeItemToBytes
  using unat_of_nat_le [of "len (Key n)"] unat_of_nat_le [of "len (ChildL n)"]
    unat_of_nat_le [of "len (ChildR n)"] unat_of_nat_le [of "len (Entry n)"]
  by linarith

lemma bytesToNodeItem_nodeItemToBytes:
  assumes "len (Key n) < 2 ^ 32" "len (ChildL n) < 2 ^ 32" "len (ChildR n) < 2 ^ 32"
    "len (Entry n) < 2 ^ 32"
  shows "bytesToNodeItem (nodeItemToBytes n) =
           Inr \<lparr>Type = Type n, Key = Some (bytes_of (Key n)), ChildL = Some (bytes_of (ChildL n)),
                ChildR = Some (bytes_of (ChildR n)), Entry = Some (entry_segment n)\<rparr>"
proof -
  let ?body = "bytes_of (Key n) @ bytes_of (ChildL n) @ bytes_of (ChildR n) @ entry_segment n"
  note u = unat_of_nat_small [OF assms(1)] unat_of_nat_small [OF assms(2)]
    unat_of_nat_small [OF assms(3)] unat_of_nat_small [OF assms(4)]
  have "unat (of_nat (len (Key n)) :: uint32) + unat (of_nat (len (ChildL n)) :: uint32) +
        unat (of_nat (len (ChildR n)) :: uint32) + unat (of_nat (len (Entry n)) :: uint32)
        \<le> length ?body"
    by (simp add: u length_bytes_of length_entry_segment)
  from bytesToNodeItem_frame [OF this, of "Type n"] show ?thesis
    unfolding nodeItemToBytes_frame u
    by (simp add: length_bytes_of length_entry_segment)
qed


section \<open>Reconstructing the node\<close>

lemma length_copy: "length (copy dst src) = length dst"
  by (simp add: copy_def Let_def min_def)

lemma copy_same_length: "length src = length dst \<Longrightarrow> copy dst src = src"
  by (simp add: copy_def Let_def)

lemma copy_empty: "copy dst [] = dst"
  by (simp add: copy_def Let_def)

lemma copy_zeroHash: "length h = 32 \<Longrightarrow> copy zeroHash h = h"
  by (simp add: copy_same_length zeroHash_def)

lemma Node_BadSize_iff:
  "Node item = Inl ErrNodeBytesBadSize \<longleftrightarrow> 0 < len (Entry item) \<and> len (Entry item) \<noteq> 2 * ElemBytesLen"
  by (simp add: Node_def Let_def)

lemma Node_error: "Node item = Inl err \<Longrightarrow> err = ErrNodeBytesBadSize"
  by (simp add: Node_def Let_def split: if_splits)

lemma Node_no_entry:
  "len (Entry item) = 0 \<Longrightarrow>
   Node item = Inr \<lparr>node_Type = Type item,
                    node_ChildL = map_option (copy zeroHash) (ChildL item),
                    node_ChildR = map_option (copy zeroHash) (ChildR item),
                    node_Entry = (None, None)\<rparr>"
  by (simp add: Node_def Let_def map_option_case)

lemma Node_entry:
  "len (Entry item) = 64 \<Longrightarrow>
   Node item = Inr \<lparr>node_Type = Type item,
                    node_ChildL = map_option (copy zeroHash) (ChildL item),
                    node_ChildR = map_option (copy zeroHash) (ChildR item),
                    node_Entry = (Some (copy zeroHash (take 32 (bytes_of (Entry item)))),
                                  Some (copy zeroHash (take 32 (drop 32 (bytes_of (Entry item))))))\<rparr>"
  by (simp add: Node_def Let_def map_option_case ElemBytesLen_def slice_of_def)

lemma Node_children:
  "Node item = Inr node \<Longrightarrow>
   node_ChildL node = map_option (copy zeroHash) (ChildL item) \<and>
   node_ChildR node = map_option (copy zeroHash) (ChildR item)"
  by (auto simp add: Node_def Let_def map_option_case split: if_splits)

lemma bytesToNodeItem_fields:
  assumes "bytesToNodeItem b = Inr item"
  shows "ChildL item \<noteq> None" "ChildR item \<noteq> None" "Key item \<noteq> None" "Entry item \<noteq> None"
    "len (Key item) = unat (readUint32LE b 1)" "len (ChildL item) = unat (readUint32LE b 5)"
    "len (ChildR item) = unat (readUint32LE b 9)" "len (Entry item) = unat (readUint32LE b 13)"
proof -
  have r: "17 + declared b \<le> length b"
    using assms by (rule bytesToNodeItem_slices_in_range)
  then have l: "17 \<le> length b"
    by simp
  note eq = bytesToNodeItem_accepts [OF l r]
  from eq assms show "ChildL item \<noteq> None" "ChildR item \<noteq> None" "Key item \<noteq> None"
    "Entry item \<noteq> None"
    by auto
  from eq assms r show "len (Key item) = unat (readUint32LE b 1)"
    by (auto simp add: slice_of_def declared_def)
  from eq assms r show "len (ChildL item) = unat (readUint32LE b 5)"
    by (auto simp add: slice_of_def declared_def)
  from eq assms r show "len (ChildR item) = unat (readUint32LE b 9)"
    by (auto simp add: slice_of_def declared_def)
  from eq assms r show "len (Entry item) = unat (readUint32LE b 13)"
    by (auto simp add: slice_of_def declared_def)
qed


lemma bytesToNodeItem_exactBuffer: "bytesToNodeItem exactBuffer = Inr exactItem"
  by (simp add: bytesToNodeItem_def Let_def exactBuffer_def exactItem_def readUint32LE_def slice_of_def)

lemma bytesToNodeItem_badEntryBuffer: "bytesToNodeItem badEntryBuffer = Inr badEntryItem"
  by (simp add: bytesToNodeItem_def Let_def badEntryBuffer_def badEntryItem_def readUint32LE_def
      slice_of_def)

text \<open>
  Claim C9. The decoder accepts a buffer whatever entry length its header declares, as
  long as the declared segments fit, and hands the entry segment on with that length.
  For a decoded node item with a non-empty entry segment, reconstruction fails with
  \<^verbatim>\<open>ErrNodeBytesBadSize\<close> (\<open>BadEntrySize\<close>) exactly when the segment is not
  \<open>2 * ElemBytesLen\<close> bytes long. With an empty entry segment there is no such error and
  the node has no entry.
\<close>

theorem Node_entry_size_check:
  "(17 \<le> length b \<and> 17 + declared b \<le> length b \<longrightarrow>
      (\<exists>item. bytesToNodeItem b = Inr item \<and> len (Entry item) = unat (readUint32LE b 13))) \<and>
   (bytesToNodeItem b = Inr item \<and> 0 < len (Entry item) \<longrightarrow>
      (Node item = Inl ErrNodeBytesBadSize \<longleftrightarrow> len (Entry item) \<noteq> 2 * ElemBytesLen)) \<and>
   (bytesToNodeItem b = Inr item \<and> len (Entry item) = 0 \<longrightarrow>
      Node item \<noteq> Inl ErrNodeBytesBadSize \<and>
      (\<exists>node. Node item = Inr node \<and> node_Entry node = (None, None)))"
proof (intro conjI impI)
  assume "17 \<le> length b \<and> 17 + declared b \<le> length b"
  then obtain item where "bytesToNodeItem b = Inr item"
    using bytesToNodeItem_accepts [of b] by blast
  then show "\<exists>item. bytesToNodeItem b = Inr item \<and> len (Entry item) = unat (readUint32LE b 13)"
    using bytesToNodeItem_fields(8) by blast
next
  assume "bytesToNodeItem b = Inr item \<and> 0 < len (Entry item)"
  then show "Node item = Inl ErrNodeBytesBadSize \<longleftrightarrow> len (Entry item) \<noteq> 2 * ElemBytesLen"
    by (simp add: Node_BadSize_iff)
next
  assume "bytesToNodeItem b = Inr item \<and> len (Entry item) = 0"
  then show "Node item \<noteq> Inl ErrNodeBytesBadSize"
    by (simp add: Node_BadSize_iff)
next
  assume "bytesToNodeItem b = Inr item \<and> len (Entry item) = 0"
  then show "\<exists>node. Node item = Inr node \<and> node_Entry node = (None, None)"
    by (simp add: Node_no_entry)
qed

theorem Node_entry_size_check_witness:
  "bytesToNodeItem badEntryBuffer = Inr badEntryItem \<and> 0 < len (Entry badEntryItem) \<and>
   len (Entry badEntryItem) \<noteq> 2 * ElemBytesLen \<and> Node badEntryItem = Inl ErrNodeBytesBadSize \<and>
   bytesToNodeItem exactBuffer = Inr exactItem \<and> len (Entry exactItem) = 0 \<and>
   Node exactItem \<noteq> Inl ErrNodeBytesBadSize"
proof -
  have 1: "0 < len (Entry badEntryItem)" "len (Entry badEntryItem) \<noteq> 2 * ElemBytesLen"
    by (simp_all add: badEntryItem_def ElemBytesLen_def)
  have 2: "len (Entry exactItem) = 0"
    by (simp add: exactItem_def)
  from Node_entry_size_check [of badEntryBuffer badEntryItem]
    Node_entry_size_check [of exactBuffer exactItem]
  show ?thesis
    using 1 2 bytesToNodeItem_badEntryBuffer bytesToNodeItem_exactBuffer by simp
qed

section \<open>Put followed by Get\<close>

lemma Get_Put:
  "Get None s (snd (Put None s db key node)) key =
     (case bytesToNodeItem (nodeItemToBytes (Put_item key node)) of
        Inl err \<Rightarrow> Inl err
      | Inr item \<Rightarrow> (case Node item of Inl err \<Rightarrow> Inl err | Inr node' \<Rightarrow> Inr node'))"
  by (simp add: Get_def Put_def redis_Get_def redis_Set_def hex_roundtrip)

lemma Put_stores:
  "snd (Put None s db key node) (getRedisNodeIdForMerkleKey s key) =
     Some (hex_EncodeToString (nodeItemToBytes (Put_item key node)))"
  by (simp add: Put_def redis_Set_def)

lemma Put_item_Type: "Type (Put_item key node) = 0"
  by (simp add: Put_item_def Let_def split: option.split prod.split)

lemma Put_item_Key: "Key (Put_item key node) = key"
  by (simp add: Put_item_def Let_def split: option.split prod.split)

lemma Put_item_ChildL:
  "ChildL (Put_item key node) = (case node_ChildL node of None \<Rightarrow> None | Some h \<Rightarrow> append_slice None h)"
  by (simp add: Put_item_def Let_def split: option.split prod.split)

lemma Put_item_ChildR:
  "ChildR (Put_item key node) = (case node_ChildR node of None \<Rightarrow> None | Some h \<Rightarrow> append_slice None h)"
  by (simp add: Put_item_def Let_def split: option.split prod.split)

lemma Put_item_Entry:
  "Entry (Put_item key node) =
     (case node_Entry node of (Some e0, Some e1) \<Rightarrow> Some (e0 @ e1) | _ \<Rightarrow> None)"
  by (simp add: Put_item_def Let_def append_slice_def split: option.split prod.split)

lemma append_slice_hash: "length h = 32 \<Longrightarrow> append_slice None h = Some h"
  by (auto simp add: append_slice_def)

lemma Put_item_valid:
  assumes "valid_Node node"
  shows "ChildL (Put_item key node) = node_ChildL node"
    and "ChildR (Put_item key node) = node_ChildR node"
    and "len (Entry (Put_item key node)) = 0 \<or> len (Entry (Put_item key node)) = 64"
proof -
  show "ChildL (Put_item key node) = node_ChildL node"
    using assms
    by (simp add: Put_item_ChildL valid_Node_def valid_Hash_def append_slice_hash split: option.splits)
  show "ChildR (Put_item key node) = node_ChildR node"
    using assms
    by (simp add: Put_item_ChildR valid_Node_def valid_Hash_def append_slice_hash split: option.splits)
  show "len (Entry (Put_item key node)) = 0 \<or> len (Entry (Put_item key node)) = 64"
    using assms
    by (auto simp add: Put_item_Entry valid_Node_def valid_Hash_def split: option.splits prod.splits)
qed


lemma nodeItemToBytes_decodes:
  obtains item where "bytesToNodeItem (nodeItemToBytes n) = Inr item"
proof -
  have "17 \<le> length (nodeItemToBytes n)"
    by (simp add: length_nodeItemToBytes)
  from bytesToNodeItem_accepts [OF this declared_nodeItemToBytes] that show thesis
    by blast
qed

lemma Get_Put_succeeds:
  assumes "valid_Node node"
  obtains item node' where "bytesToNodeItem (nodeItemToBytes (Put_item key node)) = Inr item"
    and "Node item = Inr node'"
    and "Get None s (snd (Put None s db key node)) key = Inr node'"
proof -
  obtain item where item: "bytesToNodeItem (nodeItemToBytes (Put_item key node)) = Inr item"
    by (rule nodeItemToBytes_decodes)
  have "len (Entry item) = unat (of_nat (len (Entry (Put_item key node))) :: uint32)"
    using bytesToNodeItem_fields(8) [OF item] by (simp only: readUint32LE_nodeItemToBytes)
  with Put_item_valid(3) [OF assms, of key]
  have "len (Entry item) = 0 \<or> len (Entry item) = 64"
    by auto
  then obtain node' where node': "Node item = Inr node'"
    using Node_no_entry [of item] Node_entry [of item] by blast
  have "Get None s (snd (Put None s db key node)) key = Inr node'"
    by (simp add: Get_Put item node')
  with item node' that show thesis
    by blast
qed

lemma decoded_empty_child:
  assumes "bytesToNodeItem b = Inr item"
  shows "unat (readUint32LE b 5) = 0 \<Longrightarrow> ChildL item = Some []"
    and "unat (readUint32LE b 9) = 0 \<Longrightarrow> ChildR item = Some []"
proof -
  note f = bytesToNodeItem_fields [OF assms]
  show "unat (readUint32LE b 5) = 0 \<Longrightarrow> ChildL item = Some []"
    using f(1) f(6) by (cases "ChildL item") simp_all
  show "unat (readUint32LE b 9) = 0 \<Longrightarrow> ChildR item = Some []"
    using f(2) f(7) by (cases "ChildR item") simp_all
qed

lemma Get_Put_absent_ChildL:
  assumes "valid_Node node" "node_ChildL node = None"
  shows "\<exists>node'. Get None s (snd (Put None s db key node)) key = Inr node' \<and>
                 node_ChildL node' = Some zeroHash"
proof -
  obtain item node' where item: "bytesToNodeItem (nodeItemToBytes (Put_item key node)) = Inr item"
    and node': "Node item = Inr node'"
    and get: "Get None s (snd (Put None s db key node)) key = Inr node'"
    using Get_Put_succeeds [OF assms(1)] by blast
  have "ChildL (Put_item key node) = None"
    using Put_item_valid(1) [OF assms(1)] assms(2) by simp
  then have "unat (readUint32LE (nodeItemToBytes (Put_item key node)) 5) = 0"
    by (simp add: readUint32LE_nodeItemToBytes)
  then have "ChildL item = Some []"
    by (rule decoded_empty_child(1) [OF item])
  with Node_children [OF node'] have "node_ChildL node' = Some zeroHash"
    by (simp add: copy_empty)
  with get show ?thesis
    by blast
qed

lemma Get_Put_absent_ChildR:
  assumes "valid_Node node" "node_ChildR node = None"
  shows "\<exists>node'. Get None s (snd (Put None s db key node)) key = Inr node' \<and>
                 node_ChildR node' = Some zeroHash"
proof -
  obtain item node' where item: "bytesToNodeItem (nodeItemToBytes (Put_item key node)) = Inr item"
    and node': "Node item = Inr node'"
    and get: "Get None s (snd (Put None s db key node)) key = Inr node'"
    using Get_Put_succeeds [OF assms(1)] by blast
  have "ChildR (Put_item key node) = None"
    using Put_item_valid(2) [OF assms(1)] assms(2) by simp
  then have "unat (readUint32LE (nodeItemToBytes (Put_item key node)) 9) = 0"
    by (simp add: readUint32LE_nodeItemToBytes)
  then have "ChildR item = Some []"
    by (rule decoded_empty_child(2) [OF item])
  with Node_children [OF node'] have "node_ChildR node' = Some zeroHash"
    by (simp add: copy_empty)
  with get show ?thesis
    by blast
qed

lemma valid_leafNode: "valid_Node leafNode"
  by (simp add: valid_Node_def valid_Hash_def leafNode_def hashA_def hashB_def)

text \<open>
  Claim C10. Every node item that the decoder returns has non-nil \<^verbatim>\<open>ChildL\<close> and
  \<^verbatim>\<open>ChildR\<close>, the empty slice when the declared length is zero, so the node
  reconstructed from it has both child pointers set. A node written by \<^verbatim>\<open>Put\<close> without
  a child therefore comes back from \<^verbatim>\<open>Get\<close> with that child equal to the all-zero hash.
\<close>

theorem decoded_children_not_nil:
  "(bytesToNodeItem b = Inr item \<longrightarrow>
      ChildL item \<noteq> None \<and> ChildR item \<noteq> None \<and>
      (unat (readUint32LE b 5) = 0 \<longrightarrow> ChildL item = Some []) \<and>
      (unat (readUint32LE b 9) = 0 \<longrightarrow> ChildR item = Some []) \<and>
      (\<forall>node'. Node item = Inr node' \<longrightarrow> node_ChildL node' \<noteq> None \<and> node_ChildR node' \<noteq> None)) \<and>
   (valid_Node node \<and> node_ChildL node = None \<longrightarrow>
      (\<exists>node'. Get None s (snd (Put None s db key node)) key = Inr node' \<and>
               node_ChildL node' = Some zeroHash)) \<and>
   (valid_Node node \<and> node_ChildR node = None \<longrightarrow>
      (\<exists>node'. Get None s (snd (Put None s db key node)) key = Inr node' \<and>
               node_ChildR node' = Some zeroHash))"
proof (intro conjI impI allI)
  assume b: "bytesToNodeItem b = Inr item"
  show "ChildL item \<noteq> None" "ChildR item \<noteq> None"
    using bytesToNodeItem_fields(1,2) [OF b] by blast+
  show "unat (readUint32LE b 5) = 0 \<Longrightarrow> ChildL item = Some []"
    by (rule decoded_empty_child(1) [OF b])
  show "unat (readUint32LE b 9) = 0 \<Longrightarrow> ChildR item = Some []"
    by (rule decoded_empty_child(2) [OF b])
  show "node_ChildL node' \<noteq> None" if "Node item = Inr node'" for node'
    using Node_children [OF that] bytesToNodeItem_fields(1) [OF b] by simp
  show "node_ChildR node' \<noteq> None" if "Node item = Inr node'" for node'
    using Node_children [OF that] bytesToNodeItem_fields(2) [OF b] by simp
next
  assume "valid_Node node \<and> node_ChildL node = None"
  then show "\<exists>node'. Get None s (snd (Put None s db key node)) key = Inr node' \<and>
                     node_ChildL node' = Some zeroHash"
    using Get_Put_absent_ChildL by blast
next
  assume "valid_Node node \<and> node_ChildR node = None"
  then show "\<exists>node'. Get None s (snd (Put None s db key node)) key = Inr node' \<and>
                     node_ChildR node' = Some zeroHash"
    using Get_Put_absent_ChildR by blast
qed


theorem decoded_children_not_nil_witness:
  "bytesToNodeItem exactBuffer = Inr exactItem \<and> ChildL exactItem \<noteq> None \<and>
   ChildR exactItem \<noteq> None \<and> unat (readUint32LE exactBuffer 5) = 0 \<and>
   ChildL exactItem = Some [] \<and>
   valid_Node leafNode \<and> node_ChildL leafNode = None \<and> node_ChildR leafNode = None \<and>
   (\<exists>node'. Get None storeP1 (snd (Put None storeP1 emptyStore keyK leafNode)) keyK = Inr node' \<and>
            node_ChildL node' = Some zeroHash) \<and>
   (\<exists>node'. Get None storeP1 (snd (Put None storeP1 emptyStore keyK leafNode)) keyK = Inr node' \<and>
            node_ChildR node' = Some zeroHash)"
proof -
  have 1: "unat (readUint32LE exactBuffer 5) = 0"
    by (simp add: exactBuffer_def readUint32LE_def)
  have 2: "node_ChildL leafNode = None" "node_ChildR leafNode = None"
    by (simp_all add: leafNode_def)
  from decoded_children_not_nil [of exactBuffer exactItem leafNode storeP1 emptyStore keyK]
  show ?thesis
    using 1 2 valid_leafNode bytesToNodeItem_exactBuffer by simp
qed

lemma Put_item_leafNode:
  "Put_item keyK leafNode =
     \<lparr>Type = 0, Key = keyK, ChildL = None, ChildR = None, Entry = Some (hashA @ hashB)\<rparr>"
  by (simp add: Put_item_def leafNode_def append_slice_def)

lemma Get_Put_leafNode:
  "Get None storeP1 (snd (Put None storeP1 emptyStore keyK leafNode)) keyK =
     Inr \<lparr>node_Type = 0, node_ChildL = Some zeroHash, node_ChildR = Some zeroHash,
          node_Entry = (Some zeroHash, Some zeroHash)\<rparr>"
proof -
  let ?n = "\<lparr>Type = 0, Key = keyK, ChildL = None, ChildR = None, Entry = Some (hashA @ hashB)\<rparr>"
  let ?item = "\<lparr>Type = 0, Key = Some (bytes_of keyK), ChildL = Some [], ChildR = Some [],
                Entry = Some (replicate 64 0)\<rparr>"
  have "bytesToNodeItem (nodeItemToBytes ?n) =
          Inr \<lparr>Type = Type ?n, Key = Some (bytes_of (Key ?n)), ChildL = Some (bytes_of (ChildL ?n)),
               ChildR = Some (bytes_of (ChildR ?n)), Entry = Some (entry_segment ?n)\<rparr>"
    by (rule bytesToNodeItem_nodeItemToBytes) (simp_all add: keyK_def hashA_def hashB_def)
  then have dec: "bytesToNodeItem (nodeItemToBytes ?n) = Inr ?item"
    by (simp add: entry_segment_def hashA_def hashB_def)
  have "Node ?item =
          Inr \<lparr>node_Type = 0, node_ChildL = Some zeroHash, node_ChildR = Some zeroHash,
               node_Entry = (Some zeroHash, Some zeroHash)\<rparr>"
    using Node_entry [of ?item] by (simp add: copy_empty copy_zeroHash) (simp add: zeroHash_def)
  with dec show ?thesis
    by (simp add: Get_Put Put_item_leafNode)
qed

lemma Get_Put_valid:
  assumes "valid_Node node" "len key < 2 ^ 32"
  shows "\<exists>node'. Get None s (snd (Put None s db key node)) key = Inr node' \<and>
           node_Type node' = 0 \<and>
           node_ChildL node' = Some (case node_ChildL node of None \<Rightarrow> zeroHash | Some h \<Rightarrow> h) \<and>
           node_ChildR node' = Some (case node_ChildR node of None \<Rightarrow> zeroHash | Some h \<Rightarrow> h)"
proof -
  let ?n = "Put_item key node"
  let ?item = "\<lparr>Type = Type ?n, Key = Some (bytes_of (Key ?n)), ChildL = Some (bytes_of (ChildL ?n)),
                ChildR = Some (bytes_of (ChildR ?n)), Entry = Some (entry_segment ?n)\<rparr>"
  note v = Put_item_valid [OF assms(1), of key]
  have hl: "len (node_ChildL node) \<le> 32" and hr: "len (node_ChildR node) \<le> 32"
    using assms(1) by (auto simp add: valid_Node_def valid_Hash_def split: option.splits)
  have "bytesToNodeItem (nodeItemToBytes ?n) = Inr ?item"
  proof (rule bytesToNodeItem_nodeItemToBytes)
    show "len (Key ?n) < 2 ^ 32"
      using assms(2) by (simp add: Put_item_Key)
    show "len (ChildL ?n) < 2 ^ 32"
      using hl by (simp add: v(1))
    show "len (ChildR ?n) < 2 ^ 32"
      using hr by (simp add: v(2))
    show "len (Entry ?n) < 2 ^ 32"
      using v(3) by auto
  qed
  moreover obtain item node' where "bytesToNodeItem (nodeItemToBytes ?n) = Inr item"
    and node': "Node item = Inr node'"
    and get: "Get None s (snd (Put None s db key node)) key = Inr node'"
    using Get_Put_succeeds [OF assms(1)] by blast
  ultimately have n: "Node ?item = Inr node'"
    by simp
  have t: "node_Type node' = 0"
    using n by (auto simp add: Node_def Let_def Put_item_Type split: if_splits)
  have cl: "copy zeroHash (bytes_of (node_ChildL node)) =
            (case node_ChildL node of None \<Rightarrow> zeroHash | Some h \<Rightarrow> h)"
    and cr: "copy zeroHash (bytes_of (node_ChildR node)) =
            (case node_ChildR node of None \<Rightarrow> zeroHash | Some h \<Rightarrow> h)"
    using assms(1)
    by (auto simp add: valid_Node_def valid_Hash_def copy_empty copy_zeroHash split: option.splits)
  from Node_children [OF n] have "node_ChildL node' = Some (copy zeroHash (bytes_of (node_ChildL node)))"
    and "node_ChildR node' = Some (copy zeroHash (bytes_of (node_ChildR node)))"
    by (simp_all add: v)
  with get t cl cr show ?thesis
    by simp
qed

text \<open>
  Claim C1 says that \<^verbatim>\<open>Get\<close> after \<^verbatim>\<open>Put\<close> returns a node of the type that was
  written. \<^verbatim>\<open>Put\<close> builds its item as \<^verbatim>\<open>&NodeItem{Key: key}\<close> and never copies
  \<^verbatim>\<open>node.Type\<close>, so the stored type byte is 0 for every node (\<open>Get_Put_valid\<close>; the
  children that the node has do come back). With prefix \<open>p1\<close>, an empty store and a
  leaf with the entry \<open>(hashA, hashB)\<close> written under \<open>keyK\<close>, \<^verbatim>\<open>Get\<close> returns a node
  of type \<^verbatim>\<open>NodeTypeMiddle\<close>, with all-zero children and an all-zero entry.
\<close>

theorem Put_Get_leaf_returns_middle:
  "Get None storeP1 (snd (Put None storeP1 emptyStore keyK leafNode)) keyK =
     Inr \<lparr>node_Type = NodeTypeMiddle, node_ChildL = Some zeroHash, node_ChildR = Some zeroHash,
          node_Entry = (Some zeroHash, Some zeroHash)\<rparr> \<and>
   node_Type leafNode = NodeTypeLeaf \<and> NodeTypeLeaf \<noteq> NodeTypeMiddle"
  using Get_Put_leafNode by (simp add: NodeTypeMiddle_def NodeTypeLeaf_def leafNode_def)

section \<open>The entry segment\<close>

lemma entry_segment_drop:
  "drop (17 + len (Key n) + len (ChildL n) + len (ChildR n)) (nodeItemToBytes n) = entry_segment n"
proof -
  let ?hdr = "Type n # le32 (of_nat (len (Key n))) @ le32 (of_nat (len (ChildL n))) @
     le32 (of_nat (len (ChildR n))) @ le32 (of_nat (len (Entry n)))"
  let ?klr = "bytes_of (Key n) @ bytes_of (ChildL n) @ bytes_of (ChildR n)"
  have "nodeItemToBytes n = (?hdr @ ?klr) @ entry_segment n"
    by (simp add: nodeItemToBytes_frame)
  moreover have "length (?hdr @ ?klr) = 17 + len (Key n) + len (ChildL n) + len (ChildR n)"
    by (simp add: length_le32 length_bytes_of)
  ultimately show ?thesis
    by (metis append_eq_conv_conj)
qed

text \<open>
  Claim C3 says that for every node item with a non-nil \<^verbatim>\<open>Entry\<close> the header declares
  the length of \<^verbatim>\<open>Entry\<close> as the length of the entry segment. The header field holds
  \<^verbatim>\<open>uint32(len(n.Entry))\<close>: for an entry of \<open>2 ^ 32\<close> bytes the declared length is 0.
\<close>

theorem long_entry_counterexample:
  "Entry longEntryItem = Some (replicate 4294967296 0xaa) \<and>
   length (replicate 4294967296 (0xaa :: byte)) = 4294967296 \<and>
   unat (readUint32LE (nodeItemToBytes longEntryItem) 13) = 0"
proof -
  have "(2 :: uint32) ^ 32 = 0"
    using word_exp_length_eq_0 [where 'a = 32] by simp
  then have z: "(4294967296 :: uint32) = 0"
    by simp
  have "readUint32LE (nodeItemToBytes longEntryItem) 13 = of_nat (len (Entry longEntryItem))"
    by (rule readUint32LE_nodeItemToBytes(4))
  then have "readUint32LE (nodeItemToBytes longEntryItem) 13 = 0"
    by (simp add: longEntryItem_def z)
  then show ?thesis
    by (simp add: longEntryItem_def)
qed

text \<open>
  Claim C3, amended. When \<^verbatim>\<open>Entry\<close> is not nil, the header declares the length of
  \<^verbatim>\<open>Entry\<close> modulo \<open>2 ^ 32\<close> (the 32-bit value \<^verbatim>\<open>uint32(len(n.Entry))\<close>), which is the
  length of \<^verbatim>\<open>Entry\<close> whenever \<^verbatim>\<open>Entry\<close> is shorter than \<open>2 ^ 32\<close> bytes. The buffer
  ends with a segment of as many bytes as \<^verbatim>\<open>Entry\<close> has, but the bytes are those of
  \<^verbatim>\<open>ChildR\<close>, followed by zeros where \<^verbatim>\<open>ChildR\<close> is shorter, not those of \<^verbatim>\<open>Entry\<close>.
  So for a leaf written by \<^verbatim>\<open>Put\<close>, whose children are nil, the stored entry segment
  is all zero whatever the two entry values are.
\<close>

theorem entry_segment_holds_ChildR:
  "(Entry n = Some e \<longrightarrow>
      length (nodeItemToBytes n) = 17 + len (Key n) + len (ChildL n) + len (ChildR n) + length e \<and>
      readUint32LE (nodeItemToBytes n) 13 = of_nat (length e) \<and>
      unat (readUint32LE (nodeItemToBytes n) 13) = length e mod 2 ^ 32 \<and>
      (length e < 2 ^ 32 \<longrightarrow> unat (readUint32LE (nodeItemToBytes n) 13) = length e) \<and>
      drop (17 + len (Key n) + len (ChildL n) + len (ChildR n)) (nodeItemToBytes n) =
        take (length e) (bytes_of (ChildR n)) @ replicate (length e - len (ChildR n)) 0) \<and>
   (node_ChildL node = None \<and> node_ChildR node = None \<and> node_Entry node = (Some e0, Some e1) \<longrightarrow>
      snd (Put None s db key node) (getRedisNodeIdForMerkleKey s key) =
        Some (hex_EncodeToString (nodeItemToBytes (Put_item key node))) \<and>
      readUint32LE (nodeItemToBytes (Put_item key node)) 13 = of_nat (length e0 + length e1) \<and>
      drop (17 + len key) (nodeItemToBytes (Put_item key node)) =
        replicate (length e0 + length e1) 0)"
proof (intro conjI impI)
  assume e: "Entry n = Some e"
  show "length (nodeItemToBytes n) = 17 + len (Key n) + len (ChildL n) + len (ChildR n) + length e"
    using e by (simp add: length_nodeItemToBytes)
  show r: "readUint32LE (nodeItemToBytes n) 13 = of_nat (length e)"
    using e by (simp add: readUint32LE_nodeItemToBytes)
  show "unat (readUint32LE (nodeItemToBytes n) 13) = length e mod 2 ^ 32"
    by (simp only: r unat_of_nat) simp
  show "unat (readUint32LE (nodeItemToBytes n) 13) = length e" if "length e < 2 ^ 32"
    using that by (simp only: r unat_of_nat_small)
  show "drop (17 + len (Key n) + len (ChildL n) + len (ChildR n)) (nodeItemToBytes n) =
        take (length e) (bytes_of (ChildR n)) @ replicate (length e - len (ChildR n)) 0"
    using e by (simp only: entry_segment_drop entry_segment_def len.simps)
next
  assume a: "node_ChildL node = None \<and> node_ChildR node = None \<and> node_Entry node = (Some e0, Some e1)"
  let ?n = "Put_item key node"
  have f: "Key ?n = key" "ChildL ?n = None" "ChildR ?n = None" "Entry ?n = Some (e0 @ e1)"
    using a by (simp_all add: Put_item_Key Put_item_ChildL Put_item_ChildR Put_item_Entry)
  show "snd (Put None s db key node) (getRedisNodeIdForMerkleKey s key) =
        Some (hex_EncodeToString (nodeItemToBytes ?n))"
    by (rule Put_stores)
  show "readUint32LE (nodeItemToBytes ?n) 13 = of_nat (length e0 + length e1)"
    by (simp add: readUint32LE_nodeItemToBytes f)
  show "drop (17 + len key) (nodeItemToBytes ?n) = replicate (length e0 + length e1) 0"
    using entry_segment_drop [of ?n] by (simp add: f entry_segment_def)
qed

theorem entry_segment_holds_ChildR_witness:
  "Entry childRItem = Some [0xaa, 0xbb] \<and> length [0xaa, 0xbb :: byte] < 2 ^ 32 \<and>
   unat (readUint32LE (nodeItemToBytes childRItem) 13) = 2 \<and>
   drop 21 (nodeItemToBytes childRItem) = [0x11, 0x22] \<and>
   node_ChildL leafNode = None \<and> node_ChildR leafNode = None \<and>
   node_Entry leafNode = (Some hashA, Some hashB) \<and>
   drop (17 + len keyK) (nodeItemToBytes (Put_item keyK leafNode)) = replicate 64 0"
proof -
  have 1: "Entry childRItem = Some [0xaa, 0xbb]"
    by (simp add: childRItem_def)
  have 2: "node_ChildL leafNode = None \<and> node_ChildR leafNode = None \<and>
           node_Entry leafNode = (Some hashA, Some hashB)"
    by (simp add: leafNode_def)
  from entry_segment_holds_ChildR [of childRItem "[0xaa, 0xbb]" leafNode hashA hashB storeP1 emptyStore keyK]
  show ?thesis
    using 1 2 by (simp add: childRItem_def hashA_def hashB_def)
qed

section \<open>The codec round trip\<close>

text \<open>
  Claim C2 says that decoding the encoding returns the key and the children of every
  node item. The header stores each length as \<^verbatim>\<open>uint32(len(...))\<close>: a key of \<open>2 ^ 32\<close>
  bytes is declared with length 0, and the decoder returns an empty key.
\<close>

theorem long_key_counterexample:
  "len (Key longKeyItem) = 4294967296 \<and>
   bytesToNodeItem (nodeItemToBytes longKeyItem) =
     Inr \<lparr>Type = 0, Key = Some [], ChildL = Some [], ChildR = Some [], Entry = Some []\<rparr>"
proof -
  let ?body = "replicate 4294967296 (0x07 :: byte)"
  have "(2 :: uint32) ^ 32 = 0"
    using word_exp_length_eq_0 [where 'a = 32] by simp
  then have z: "(4294967296 :: uint32) = 0"
    by simp
  have "nodeItemToBytes longKeyItem = 0 # le32 0 @ le32 0 @ le32 0 @ le32 0 @ ?body"
    by (simp add: nodeItemToBytes_frame longKeyItem_def entry_segment_def z)
  moreover have "bytesToNodeItem (0 # le32 0 @ le32 0 @ le32 0 @ le32 0 @ ?body) =
     Inr \<lparr>Type = 0, Key = Some [], ChildL = Some [], ChildR = Some [], Entry = Some []\<rparr>"
    using bytesToNodeItem_frame [of 0 0 0 0 ?body 0] by simp
  ultimately show ?thesis
    by (simp add: longKeyItem_def)
qed

text \<open>
  Claim C2, amended. For every node item whose four fields are each shorter than
  \<open>2 ^ 32\<close> bytes, decoding its encoding succeeds and yields an item with the same type
  byte and the same key, left-child and right-child bytes, and an entry segment of the
  declared length. Reconstruction of the node succeeds when the entry is empty or 64
  bytes long, and then each child of the item that is a 32-byte hash is reconstructed
  equal to it. The content of the entry segment is exempt.
\<close>

theorem decode_encode_roundtrip:
  assumes "len (Key n) < 2 ^ 32" "len (ChildL n) < 2 ^ 32" "len (ChildR n) < 2 ^ 32"
    "len (Entry n) < 2 ^ 32"
  shows "\<exists>item. bytesToNodeItem (nodeItemToBytes n) = Inr item \<and>
           Type item = Type n \<and>
           bytes_of (Key item) = bytes_of (Key n) \<and>
           bytes_of (ChildL item) = bytes_of (ChildL n) \<and>
           bytes_of (ChildR item) = bytes_of (ChildR n) \<and>
           len (Entry item) = len (Entry n) \<and>
           (len (Entry n) = 0 \<or> len (Entry n) = 64 \<longrightarrow> (\<exists>node. Node item = Inr node)) \<and>
           (\<forall>node h. Node item = Inr node \<and> ChildL n = Some h \<and> length h = 32 \<longrightarrow>
              node_ChildL node = Some h) \<and>
           (\<forall>node h. Node item = Inr node \<and> ChildR n = Some h \<and> length h = 32 \<longrightarrow>
              node_ChildR node = Some h)"
proof -
  let ?item = "\<lparr>Type = Type n, Key = Some (bytes_of (Key n)), ChildL = Some (bytes_of (ChildL n)),
                ChildR = Some (bytes_of (ChildR n)), Entry = Some (entry_segment n)\<rparr>"
  have dec: "bytesToNodeItem (nodeItemToBytes n) = Inr ?item"
    using assms by (rule bytesToNodeItem_nodeItemToBytes)
  have e: "len (Entry ?item) = len (Entry n)"
    by (simp add: length_entry_segment)
  have ok: "\<exists>node. Node ?item = Inr node" if "len (Entry n) = 0 \<or> len (Entry n) = 64"
    using that e Node_no_entry [of ?item] Node_entry [of ?item] by auto
  have l: "node_ChildL node = Some h" if "Node ?item = Inr node" "ChildL n = Some h" "length h = 32"
    for node h
    using Node_children [OF that(1)] that(2,3) by (simp add: copy_zeroHash)
  have r: "node_ChildR node = Some h" if "Node ?item = Inr node" "ChildR n = Some h" "length h = 32"
    for node h
    using Node_children [OF that(1)] that(2,3) by (simp add: copy_zeroHash)
  show ?thesis
    using dec e ok l r by (intro exI [of _ ?item]) auto
qed

lemma middleItem_lengths:
  "len (Key middleItem) = 32" "len (ChildL middleItem) = 32" "len (ChildR middleItem) = 32"
  "len (Entry middleItem) = 0" "ChildL middleItem = Some hashA" "ChildR middleItem = Some hashB"
  "length hashA = 32" "length hashB = 32"
  by (simp_all add: middleItem_def hashA_def hashB_def)

theorem decode_encode_roundtrip_witness:
  "len (Key middleItem) < 2 ^ 32 \<and> len (ChildL middleItem) < 2 ^ 32 \<and>
   len (ChildR middleItem) < 2 ^ 32 \<and> len (Entry middleItem) < 2 ^ 32 \<and>
   (\<exists>item node. bytesToNodeItem (nodeItemToBytes middleItem) = Inr item \<and>
      bytes_of (Key item) = bytes_of (Key middleItem) \<and>
      bytes_of (ChildL item) = hashA \<and> bytes_of (ChildR item) = hashB \<and>
      Node item = Inr node \<and> node_ChildL node = Some hashA \<and> node_ChildR node = Some hashB)"
proof -
  have b: "len (Key middleItem) < 2 ^ 32" "len (ChildL middleItem) < 2 ^ 32"
    "len (ChildR middleItem) < 2 ^ 32" "len (Entry middleItem) < 2 ^ 32"
    by (simp_all add: middleItem_lengths)
  from decode_encode_roundtrip [OF b] obtain item where
    item: "bytesToNodeItem (nodeItemToBytes middleItem) = Inr item"
      "bytes_of (Key item) = bytes_of (Key middleItem)"
      "bytes_of (ChildL item) = bytes_of (ChildL middleItem)"
      "bytes_of (ChildR item) = bytes_of (ChildR middleItem)"
      "len (Entry middleItem) = 0 \<or> len (Entry middleItem) = 64 \<longrightarrow> (\<exists>node. Node item = Inr node)"
      "\<forall>node h. Node item = Inr node \<and> ChildL middleItem = Some h \<and> length h = 32 \<longrightarrow>
              node_ChildL node = Some h"
      "\<forall>node h. Node item = Inr node \<and> ChildR middleItem = Some h \<and> length h = 32 \<longrightarrow>
              node_ChildR node = Some h"
    by blast
  from item(5) obtain node where node: "Node item = Inr node"
    by (auto simp add: middleItem_lengths)
  have "node_ChildL node = Some hashA" "node_ChildR node = Some hashB"
    using item(6,7) node middleItem_lengths(5-8) by blast+
  with item(1-4) node b show ?thesis
    by (auto simp add: middleItem_lengths)
qed

section \<open>The root\<close>

lemma copy_cached_root:
  assumes "valid_Storage s" "length h = 32"
  shows "copy (case currentRoot s of None \<Rightarrow> zeroHash | Some c \<Rightarrow> c) h = h"
  using assms
  by (auto simp add: valid_Storage_def valid_Hash_def zeroHash_def copy_same_length
      split: option.splits)

lemma SetRoot_result:
  assumes "valid_Storage s" "length h = 32"
  shows "SetRoot f s db h =
           (case f of
              None \<Rightarrow> (None, s\<lparr>currentRoot := Some h\<rparr>, db(rootId s \<mapsto> hex_EncodeToString h))
            | Some msg \<Rightarrow>
                (Some (storageError (ClientError msg) ''failed to update current root hash''),
                 s\<lparr>currentRoot := Some h\<rparr>, db))"
  by (simp add: SetRoot_def Let_def copy_cached_root [OF assms] redis_Set_def newErr_def
      split: option.split)

lemma GetRoot_cached:
  assumes "currentRoot s = Some h" "length h = 32"
  shows "GetRoot f s db = (Inr h, s)"
  using assms by (simp add: GetRoot_def copy_zeroHash)

lemma GetRoot_from_store:
  assumes "currentRoot s = None" "db (rootId s) = Some (hex_EncodeToString h)" "length h = 32"
  shows "GetRoot None s db = (Inr h, s\<lparr>currentRoot := Some h\<rparr>)"
  using assms by (simp add: GetRoot_def redis_Get_def hex_roundtrip copy_zeroHash Let_def)

text \<open>
  Claim C5. After a successful \<^verbatim>\<open>SetRoot(h1)\<close> on a handle, \<^verbatim>\<open>GetRoot\<close> on that handle
  returns \<open>h1\<close> whatever the store holds and whether or not the client would answer, so
  without reading the store, and leaves the handle as it is. A handle made by
  \<^verbatim>\<open>NewMerkleRedisStorage\<close> with the same prefix, whose cache is empty, reads the
  store that \<^verbatim>\<open>SetRoot\<close> wrote and returns \<open>h1\<close> as well (and caches it).
\<close>

theorem SetRoot_then_GetRoot:
  assumes "valid_Storage s" "length h1 = 32" "rootId s = merkleTreeRootBase @ prefix"
    and "SetRoot f s db h1 = (None, s', db')"
  shows "(\<forall>f' db''. GetRoot f' s' db'' = (Inr h1, s')) \<and>
         currentRoot (NewMerkleRedisStorage prefix) = None \<and>
         GetRoot None (NewMerkleRedisStorage prefix) db' =
           (Inr h1, (NewMerkleRedisStorage prefix)\<lparr>currentRoot := Some h1\<rparr>)"
proof -
  from assms(4) have f: "f = None"
    by (cases f) (simp_all add: SetRoot_result [OF assms(1,2)])
  with assms(4) have s': "s' = s\<lparr>currentRoot := Some h1\<rparr>"
    and db': "db' = db(rootId s \<mapsto> hex_EncodeToString h1)"
    by (simp_all add: SetRoot_result [OF assms(1,2)])
  have 1: "GetRoot f' s' db'' = (Inr h1, s')" for f' db''
    by (rule GetRoot_cached) (simp_all add: s' assms(2))
  have 2: "currentRoot (NewMerkleRedisStorage prefix) = None"
    by (simp add: NewMerkleRedisStorage_def)
  have "db' (rootId (NewMerkleRedisStorage prefix)) = Some (hex_EncodeToString h1)"
    by (simp add: db' assms(3) NewMerkleRedisStorage_def)
  from GetRoot_from_store [of "NewMerkleRedisStorage prefix" db' h1, OF 2 this assms(2)] 1 2
  show ?thesis
    by simp
qed


lemma valid_storeP1: "valid_Storage storeP1" "rootId storeP1 = merkleTreeRootBase @ ''p1''"
  "currentRoot storeP1 = None"
  by (simp_all add: valid_Storage_def valid_Hash_def storeP1_def NewMerkleRedisStorage_def)

lemma length_hashA: "length hashA = 32"
  by (simp add: hashA_def)

theorem SetRoot_then_GetRoot_witness:
  "valid_Storage storeP1 \<and> length hashA = 32 \<and> rootId storeP1 = merkleTreeRootBase @ ''p1'' \<and>
   SetRoot None storeP1 emptyStore hashA =
     (None, storeP1\<lparr>currentRoot := Some hashA\<rparr>,
      emptyStore(rootId storeP1 \<mapsto> hex_EncodeToString hashA)) \<and>
   GetRoot (Some ''connection refused'') (storeP1\<lparr>currentRoot := Some hashA\<rparr>) emptyStore =
     (Inr hashA, storeP1\<lparr>currentRoot := Some hashA\<rparr>) \<and>
   GetRoot None (NewMerkleRedisStorage ''p1'')
       (emptyStore(rootId storeP1 \<mapsto> hex_EncodeToString hashA)) =
     (Inr hashA, (NewMerkleRedisStorage ''p1'')\<lparr>currentRoot := Some hashA\<rparr>)"
proof -
  have set: "SetRoot None storeP1 emptyStore hashA =
     (None, storeP1\<lparr>currentRoot := Some hashA\<rparr>,
      emptyStore(rootId storeP1 \<mapsto> hex_EncodeToString hashA))"
    by (simp add: SetRoot_result [OF valid_storeP1(1) length_hashA])
  from SetRoot_then_GetRoot [OF valid_storeP1(1) length_hashA valid_storeP1(2) set]
  show ?thesis
    using set valid_storeP1 length_hashA by simp
qed

text \<open>
  Claim C6. When the store write of \<^verbatim>\<open>SetRoot(h)\<close> fails, \<^verbatim>\<open>SetRoot\<close> returns the
  wrapper \<^verbatim>\<open>storageError\<close> that holds the client's error and the message
  \<open>failed to update current root hash\<close> (what \<^verbatim>\<open>newErr\<close> builds from the two), and the
  handle's cached root is already \<open>h\<close>: the cache is updated, not left as it was.
  \<^verbatim>\<open>SetRoot\<close> returns an error in no other case.
\<close>

theorem SetRoot_failure_keeps_cache:
  assumes "valid_Storage s" "length h = 32"
  shows "fst (SetRoot (Some msg) s db h) =
           Some (storageError (ClientError msg) ''failed to update current root hash'') \<and>
         newErr (ClientError msg) ''failed to update current root hash'' =
           storageError (ClientError msg) ''failed to update current root hash'' \<and>
         is_storageError (storageError (ClientError msg) ''failed to update current root hash'') \<and>
         Unwrap (storageError (ClientError msg) ''failed to update current root hash'') =
           Some (ClientError msg) \<and>
         currentRoot (fst (snd (SetRoot (Some msg) s db h))) = Some h \<and>
         (fst (SetRoot f s db h) = None \<longleftrightarrow> f = None)"
  by (simp add: SetRoot_result [OF assms] newErr_def split: option.split)

theorem SetRoot_failure_keeps_cache_witness:
  "valid_Storage storeP1 \<and> length hashA = 32 \<and> currentRoot storeP1 = None \<and>
   fst (SetRoot (Some ''connection refused'') storeP1 emptyStore hashA) =
     Some (storageError (ClientError ''connection refused'')
             ''failed to update current root hash'') \<and>
   currentRoot (fst (snd (SetRoot (Some ''connection refused'') storeP1 emptyStore hashA))) =
     Some hashA"
  using SetRoot_failure_keeps_cache [OF valid_storeP1(1) length_hashA,
      of "''connection refused''" emptyStore None]
    valid_storeP1 length_hashA
  by simp

section \<open>Errors of Put\<close>

text \<open>
  Claim C7 says that \<^verbatim>\<open>Put\<close> wraps the error of a failed store write. \<^verbatim>\<open>Put\<close> ends
  with \<^verbatim>\<open>return res.Err()\<close>: the error comes back as the client gave it.
\<close>

theorem Put_error_not_wrapped_counterexample:
  "fst (Put (Some ''connection refused'') storeP1 emptyStore keyK leafNode) =
     Some (ClientError ''connection refused'') \<and>
   \<not> is_storageError (ClientError ''connection refused'')"
  by (simp add: Put_def redis_Set_def)

text \<open>
  Claim C7, amended. For every key and node, when the store write fails during
  \<^verbatim>\<open>Put\<close>, \<^verbatim>\<open>Put\<close> returns the client's error itself: it is not a \<^verbatim>\<open>storageError\<close>
  and carries no context message. When the write goes through, \<^verbatim>\<open>Put\<close> returns no
  error.
\<close>

theorem Put_returns_store_error:
  "fst (Put (Some msg) s db key node) = Some (ClientError msg) \<and>
   \<not> is_storageError (ClientError msg) \<and>
   Unwrap (ClientError msg) = None \<and>
   fst (Put None s db key node) = None"
  by (simp add: Put_def redis_Set_def)

end
